theory Spec2Isabelle
  imports Complex_Main "HOL-Library.Multiset"
begin

section \<open>Python values and built-ins used by order.py\<close>

text \<open>
  Strings are lists of characters; a list index, a cursor position and a key code are
  Python integers (\<open>int\<close>). An exception is a value of \<open>py_error\<close>; a computation that may
  raise returns \<open>py_error + 'a\<close> with \<open>Inl\<close> for the exception. \<open>OSError\<close> carries
  \<open>str(e)\<close>.

  A library function that is written out here on a fragment of its inputs only returns a
  value of \<open>'a lib\<close>: the value the function returns, the exception it raises, or
  \<open>NotModelled\<close> on an input outside the fragment. \<open>NotModelled\<close> is not a behaviour of
  the program: where it arises, the model says nothing about the run.
\<close>

datatype py_error = IndexError | ValueError | TypeError | OSError string | ReError

datatype 'a lib = Returns 'a | Raises py_error | NotModelled

subsection \<open>Lists: indexing, assignment, pop and insert\<close>

definition norm_index :: "'a list \<Rightarrow> int \<Rightarrow> int" where
  "norm_index xs i = (if i < 0 then i + int (length xs) else i)"

definition py_getitem :: "'a list \<Rightarrow> int \<Rightarrow> py_error + 'a" where
  "py_getitem xs i =
     (let j = norm_index xs i
      in if 0 \<le> j \<and> j < int (length xs) then Inr (xs ! nat j) else Inl IndexError)"

definition py_setitem :: "'a list \<Rightarrow> int \<Rightarrow> 'a \<Rightarrow> py_error + 'a list" where
  "py_setitem xs i v =
     (let j = norm_index xs i
      in if 0 \<le> j \<and> j < int (length xs) then Inr (xs[nat j := v]) else Inl IndexError)"

definition py_pop :: "'a list \<Rightarrow> int \<Rightarrow> py_error + 'a list" where
  "py_pop xs i =
     (let j = norm_index xs i
      in if 0 \<le> j \<and> j < int (length xs)
         then Inr (take (nat j) xs @ drop (Suc (nat j)) xs)
         else Inl IndexError)"

definition py_insert :: "'a list \<Rightarrow> int \<Rightarrow> 'a \<Rightarrow> 'a list" where
  "py_insert xs i v =
     (let j = norm_index xs i;
          k = (if j < 0 then 0 else if int (length xs) < j then length xs else nat j)
      in take k xs @ v # drop k xs)"

subsection \<open>Strings: strip, decimal digits, the \<open>%\<close> operator on one integer\<close>

text \<open>\<open>str.isspace\<close> on the code points below 256.\<close>

definition py_isspace :: "char \<Rightarrow> bool" where
  "py_isspace c = ((of_char c :: nat) \<in> {9, 10, 11, 12, 13, 28, 29, 30, 31, 32, 133, 160})"

definition py_strip :: "string \<Rightarrow> string" where
  "py_strip s = rev (dropWhile py_isspace (rev (dropWhile py_isspace s)))"

definition digit_char :: "nat \<Rightarrow> char" where
  "digit_char d = ''0123456789'' ! d"

function str_nat :: "nat \<Rightarrow> string" where
  "str_nat n = (if n < 10 then [digit_char n] else str_nat (n div 10) @ [digit_char (n mod 10)])"
  by pat_completeness auto
termination
  by (relation "measure id") auto

declare str_nat.simps [simp del]

definition is_digit :: "char \<Rightarrow> bool" where
  "is_digit c = (c \<in> set ''0123456789'')"

definition digits_val :: "string \<Rightarrow> nat" where
  "digits_val ds = foldl (\<lambda>a c. 10 * a + (of_char c - 48)) 0 ds"

definition pad_left :: "char \<Rightarrow> nat \<Rightarrow> string \<Rightarrow> string" where
  "pad_left c w s = replicate (w - length s) c @ s"

text \<open>The conversion \<open>%[0][width]d\<close> of one integer.\<close>

definition format_int :: "bool \<Rightarrow> nat \<Rightarrow> int \<Rightarrow> string" where
  "format_int zero w n =
     (if n < 0
      then (if zero then CHR ''-'' # pad_left CHR ''0'' (w - 1) (str_nat (nat (- n)))
            else pad_left CHR '' '' w (CHR ''-'' # str_nat (nat (- n))))
      else pad_left (if zero then CHR ''0'' else CHR '' '') w (str_nat (nat n)))"

text \<open>
  \<open>pattern % n\<close> for an integer \<open>n\<close>, on the fragment: literal characters, \<open>%%\<close>, and
  \<open>%\<close> followed by any number of \<open>0\<close> flags, an optional decimal width and one of the
  conversions \<open>d\<close>, \<open>i\<close>, \<open>u\<close>. The flag \<open>used\<close> records that the single argument has
  been consumed: a second conversion raises TypeError (not enough arguments), and so does
  a pattern that consumes nothing (not all arguments converted). A pattern that ends inside
  a conversion raises ValueError (incomplete format). Every other conversion (other flags,
  a precision, a length modifier, another conversion character) is \<open>NotModelled\<close>.
\<close>

function py_format :: "string \<Rightarrow> bool \<Rightarrow> int \<Rightarrow> string lib" where
  "py_format [] used n = (if used then Returns [] else Raises TypeError)"
| "py_format (c # cs) used n =
     (if c \<noteq> CHR ''%''
      then (case py_format cs used n of
              Returns s \<Rightarrow> Returns (c # s)
            | Raises e \<Rightarrow> Raises e
            | NotModelled \<Rightarrow> NotModelled)
      else
        (let fl = takeWhile (\<lambda>x. x = CHR ''0'') cs;
             r1 = dropWhile (\<lambda>x. x = CHR ''0'') cs;
             ws = takeWhile is_digit r1;
             r2 = dropWhile is_digit r1
         in case r2 of
              [] \<Rightarrow> Raises ValueError
            | k # rest \<Rightarrow>
                if k \<in> set ''diu''
                then (if used then Raises TypeError
                      else (case py_format rest True n of
                              Returns s \<Rightarrow>
                                Returns (format_int (fl \<noteq> []) (digits_val ws) n @ s)
                            | Raises e \<Rightarrow> Raises e
                            | NotModelled \<Rightarrow> NotModelled))
                else if k = CHR ''%'' \<and> fl = [] \<and> ws = []
                then (case py_format rest used n of
                        Returns s \<Rightarrow> Returns (CHR ''%'' # s)
                      | Raises e \<Rightarrow> Raises e
                      | NotModelled \<Rightarrow> NotModelled)
                else NotModelled))"
  by pat_completeness auto
termination
proof (relation "measure (\<lambda>(p, used, n). length p)", goal_cases)
  case 1
  then show ?case by simp
next
  case (2 c cs used n)
  then show ?case by simp
next
  case (3 c cs used n fl r1 ws r2 k rest)
  have "length (dropWhile is_digit (dropWhile (\<lambda>x. x = CHR ''0'') cs)) \<le> length cs"
    by (meson length_dropWhile_le order_trans)
  moreover have "dropWhile is_digit (dropWhile (\<lambda>x. x = CHR ''0'') cs) = k # rest"
    using 3 by simp
  ultimately have "length (k # rest) \<le> length cs"
    by simp
  then show ?case by simp
next
  case (4 c cs used n fl r1 ws r2 k rest)
  have "length (dropWhile is_digit (dropWhile (\<lambda>x. x = CHR ''0'') cs)) \<le> length cs"
    by (meson length_dropWhile_le order_trans)
  moreover have "dropWhile is_digit (dropWhile (\<lambda>x. x = CHR ''0'') cs) = k # rest"
    using 4 by simp
  ultimately have "length (k # rest) \<le> length cs"
    by simp
  then show ?case by simp
qed

declare py_format.simps [simp del]

text \<open>
  \<open>math.ceil(math.log(n, 10))\<close> for \<open>n \<ge> 1\<close>, computed on the naturals: the least \<open>w\<close>
  with \<open>n \<le> 10 ^ w\<close>. (CPython divides two doubles, \<open>log(n) / log(10)\<close>; at \<open>n = 10\<close>
  the quotient of two equal doubles is exactly \<open>1.0\<close>.)
\<close>

function ceil_log10 :: "nat \<Rightarrow> nat" where
  "ceil_log10 n = (if n \<le> 1 then 0 else Suc (ceil_log10 ((n + 9) div 10)))"
  by pat_completeness auto
termination
  by (relation "measure id") auto

declare ceil_log10.simps [simp del]


section \<open>The operating system and the regular-expression library\<close>

text \<open>
  \<open>os.rename\<close> and \<open>re.sub\<close> are not code of this program: the program is modelled for
  every behaviour of the two. A file system is a value of any type \<open>'fs\<close>;
  \<open>os.rename(old, new)\<close> is a function that returns the changed file system or \<open>Inl\<close> of
  the text of the exception it raises. \<open>re.sub(pattern, '', v)\<close> is a function of the
  pattern and the name that returns the new name or raises the exception of a pattern
  that does not compile; an instance that covers only some patterns is \<open>NotModelled\<close> on
  the others.
\<close>

type_synonym 'fs rename_fn = "'fs \<Rightarrow> string \<Rightarrow> string \<Rightarrow> string + 'fs"

type_synonym sub_fn = "string \<Rightarrow> string \<Rightarrow> string lib"

text \<open>\<open>re.sub\<close> called with the result of a prompt: \<open>None\<close> is not a pattern.\<close>

definition re_sub :: "sub_fn \<Rightarrow> string option \<Rightarrow> string \<Rightarrow> string lib" where
  "re_sub rs pattern v = (case pattern of None \<Rightarrow> Raises TypeError | Some p \<Rightarrow> rs p v)"

subsection \<open>Concrete instances\<close>

text \<open>A file system that is the set of existing paths: renaming a missing path fails.\<close>

definition rename_paths :: "string set rename_fn" where
  "rename_paths fs old new =
     (if old \<in> fs then Inr (insert new (fs - {old})) else Inl ''No such file or directory'')"

text \<open>A file system that accepts every rename and records the calls in order.\<close>

definition rename_log :: "(string \<times> string) list rename_fn" where
  "rename_log fs old new = Inr (fs @ [(old, new)])"

text \<open>
  \<open>re.sub(p, '', v)\<close> on the patterns \<open>^\<close>, the empty pattern and the patterns without a
  special character: a literal pattern matches its own text, and \<open>re.sub\<close> replaces the
  leftmost non-overlapping matches, all of them (its \<open>count\<close> argument defaults to 0);
  \<open>^\<close> and the empty pattern match only empty strings, whose removal changes nothing.
  Every other pattern is \<open>NotModelled\<close>.
\<close>

definition re_special :: "char \<Rightarrow> bool" where
  "re_special c = (c \<in> set (CHR 0x5C # ''.^$*+?{}[]|()''))"

function remove_all :: "string \<Rightarrow> string \<Rightarrow> string" where
  "remove_all p [] = []"
| "remove_all p (c # cs) =
     (if p \<noteq> [] \<and> take (length p) (c # cs) = p
      then remove_all p (drop (length p) (c # cs))
      else c # remove_all p cs)"
  by pat_completeness auto
termination
  by (relation "measure (\<lambda>(p, v). length v)") auto

declare remove_all.simps(2) [simp del]

definition re_sub_literal :: sub_fn where
  "re_sub_literal p v =
     (if p = ''^'' \<or> p = [] then Returns v
      else if list_ex re_special p then NotModelled
      else Returns (remove_all p v))"

section \<open>The line editor: \<open>prompt_user\<close>\<close>

abbreviation KEY_DOWN :: int where "KEY_DOWN \<equiv> 258"
abbreviation KEY_UP :: int where "KEY_UP \<equiv> 259"
abbreviation KEY_LEFT :: int where "KEY_LEFT \<equiv> 260"
abbreviation KEY_RIGHT :: int where "KEY_RIGHT \<equiv> 261"
abbreviation KEY_BACKSPACE :: int where "KEY_BACKSPACE \<equiv> 263"
abbreviation KEY_ENTER :: int where "KEY_ENTER \<equiv> 343"

abbreviation ord :: "char \<Rightarrow> int" where "ord c \<equiv> of_char c"

text \<open>
  One iteration of the \<open>while True\<close> loop of \<open>prompt_user\<close> on the key read by \<open>getch\<close>:
  the loop goes on with a buffer and a cursor position, returns (\<open>Some\<close> of the stripped
  text, or \<open>None\<close>), or raises. Drawing the prompt is not modelled.
\<close>

datatype prompt_outcome = Editing string int | Resolved "string option" | Faulted py_error

definition prompt_key :: "string \<Rightarrow> int \<Rightarrow> int \<Rightarrow> prompt_outcome" where
  "prompt_key buffer cursor_pos key =
     (if key \<in> {KEY_ENTER, 10, 13}
      then (let v = py_strip buffer in if v \<noteq> [] then Resolved (Some v) else Resolved None)
      else if key = 1 then Editing buffer 0
      else if key = 4
      then (if length buffer > 0
            then (case py_pop buffer cursor_pos of
                    Inl e \<Rightarrow> Faulted e
                  | Inr b \<Rightarrow> Editing b cursor_pos)
            else Editing buffer cursor_pos)
      else if key = 5 then Editing buffer (int (length buffer) - 1)
      else if key \<in> {27, 3, 7} then Resolved None
      else if key \<in> {KEY_BACKSPACE, 127, 8}
      then (if cursor_pos > 0
            then (case py_pop buffer (cursor_pos - 1) of
                    Inl e \<Rightarrow> Faulted e
                  | Inr b \<Rightarrow> Editing b (cursor_pos - 1))
            else Editing buffer cursor_pos)
      else if key \<in> {2, KEY_LEFT}
      then (if cursor_pos > 0 then Editing buffer (cursor_pos - 1) else Editing buffer cursor_pos)
      else if key \<in> {6, KEY_RIGHT}
      then (if cursor_pos < int (length buffer) then Editing buffer (cursor_pos + 1)
            else Editing buffer cursor_pos)
      else if 32 \<le> key \<and> key \<le> 126
      then Editing (py_insert buffer cursor_pos (char_of key)) (cursor_pos + 1)
      else Editing buffer cursor_pos)"

text \<open>
  \<open>prompt_user\<close> on a finite supply of keys: the result and the keys left over, or \<open>None\<close>
  when the keys run out before the prompt resolves (\<open>getch\<close> blocks).
\<close>

fun prompt_loop :: "string \<Rightarrow> int \<Rightarrow> int list \<Rightarrow> ((py_error + string option) \<times> int list) option" where
  "prompt_loop buffer cursor_pos [] = None"
| "prompt_loop buffer cursor_pos (key # keys) =
     (case prompt_key buffer cursor_pos key of
        Editing b c \<Rightarrow> prompt_loop b c keys
      | Resolved r \<Rightarrow> Some (Inr r, keys)
      | Faulted e \<Rightarrow> Some (Inl e, keys))"

definition prompt_user :: "string \<Rightarrow> int list \<Rightarrow> ((py_error + string option) \<times> int list) option" where
  "prompt_user default_value keys = prompt_loop default_value (int (length default_value)) keys"


section \<open>The session: \<open>main\<close>\<close>

text \<open>
  The variables of \<open>main\<close>. \<open>message\<close> is the text the next \<open>draw_menu\<close> shows; the loop
  clears it after each draw, before it reads the key. Drawing is not modelled.
\<close>

record ui_state =
  files :: "string list"
  current_idx :: int
  first_selection :: "int option"
  message :: string

text \<open>
  The session is in \<open>main\<close> waiting for a key (\<open>Running\<close>), in a call of \<open>prompt_user\<close>
  made by \<open>main\<close> (\<open>PromptActive\<close>, with the branch that called it, the variables of
  \<open>main\<close>, the buffer and the cursor position), has returned from \<open>main\<close> (\<open>Exiting\<close>, with
  the list as \<open>main\<close> left it and the value returned), or has left \<open>main\<close> by an exception
  (\<open>Crashed\<close>). \<open>OutsideModel\<close> is not a state of the program: a library function was
  \<open>NotModelled\<close> on its input, and the model says nothing about the rest of the run.
\<close>

datatype prompt_kind = BulkEnumerate | StripPattern | SingleRename string

datatype session =
    Running ui_state
  | PromptActive prompt_kind ui_state string int
  | Exiting "string list" "string option"
  | Crashed py_error
  | OutsideModel

text \<open>\<open>(current_idx + d) % len(files) if files else 0\<close>\<close>

definition wrap_move :: "string list \<Rightarrow> int \<Rightarrow> int \<Rightarrow> int" where
  "wrap_move fl idx d = (if fl \<noteq> [] then (idx + d) mod int (length fl) else 0)"

text \<open>\<open>files[i], files[j] = (files[j], files[i])\<close>: both reads, then both writes.\<close>

definition swap_items :: "'a list \<Rightarrow> int \<Rightarrow> int \<Rightarrow> py_error + 'a list" where
  "swap_items xs i j =
     (case py_getitem xs j of
        Inl e \<Rightarrow> Inl e
      | Inr a \<Rightarrow>
          (case py_getitem xs i of
             Inl e \<Rightarrow> Inl e
           | Inr b \<Rightarrow>
               (case py_setitem xs i a of
                  Inl e \<Rightarrow> Inl e
                | Inr ys \<Rightarrow> py_setitem ys j b)))"

text \<open>The branch of Space or Enter when \<open>first_selection\<close> is set to \<open>a\<close>.\<close>

definition drop_item :: "string list \<Rightarrow> int \<Rightarrow> int \<Rightarrow> py_error + string list" where
  "drop_item fl a cur =
     (if a \<noteq> cur
      then (case py_getitem fl a of
              Inl e \<Rightarrow> Inl e
            | Inr selected_value \<Rightarrow>
                (case py_pop fl a of
                   Inl e \<Rightarrow> Inl e
                 | Inr fl' \<Rightarrow> Inr (py_insert fl' cur selected_value)))
      else Inr fl)"

text \<open>The default of the bulk prompt: \<open>f'%0{math.ceil(math.log(len(files), 10))}d'\<close>.\<close>

definition bulk_pattern :: "string list \<Rightarrow> py_error + string" where
  "bulk_pattern fl =
     (if fl = [] then Inl ValueError
      else Inr (''%0'' @ str_nat (ceil_log10 (length fl)) @ ''d''))"

text \<open>One iteration of the loop of \<open>main\<close> on the key read by \<open>getch\<close>, up to a prompt.\<close>

definition main_key :: "ui_state \<Rightarrow> int \<Rightarrow> session" where
  "main_key s0 key =
     (let s = s0\<lparr>message := []\<rparr>; fl = files s; cur = current_idx s; sel = first_selection s
      in
      if key = KEY_UP \<or> key = ord CHR ''k''
      then Running (s\<lparr>current_idx := wrap_move fl cur (- 1)\<rparr>)
      else if key = KEY_DOWN \<or> key = ord CHR ''j''
      then Running (s\<lparr>current_idx := wrap_move fl cur 1\<rparr>)
      else if key \<in> {27, 3, 7}
      then Running (s\<lparr>first_selection := None\<rparr>)
      else if key = ord CHR ''K''
      then (let new = wrap_move fl cur (- 1)
            in case swap_items fl cur new of
                 Inl e \<Rightarrow> Crashed e
               | Inr fl' \<Rightarrow>
                   Running (s\<lparr>files := fl', current_idx := new,
                     first_selection :=
                       (if Some new = sel then Some (min (new + 1) (int (length fl') - 1))
                        else sel)\<rparr>))
      else if key = ord CHR ''J''
      then (let new = wrap_move fl cur 1
            in case swap_items fl cur new of
                 Inl e \<Rightarrow> Crashed e
               | Inr fl' \<Rightarrow>
                   Running (s\<lparr>files := fl', current_idx := new,
                     first_selection :=
                       (if Some new = sel then Some (max (new - 1) 0) else sel)\<rparr>))
      else if key \<in> {KEY_ENTER, 10, 13, ord CHR '' ''}
      then (case sel of
              None \<Rightarrow> Running (s\<lparr>first_selection := Some cur\<rparr>)
            | Some a \<Rightarrow>
                (case drop_item fl a cur of
                   Inl e \<Rightarrow> Crashed e
                 | Inr fl' \<Rightarrow> Running (s\<lparr>files := fl', first_selection := None\<rparr>)))
      else if key \<in> {3, ord CHR ''q'', ord CHR ''Q''}
      then Exiting fl None
      else if key \<in> {ord CHR ''x'', ord CHR ''X''}
      then (case bulk_pattern fl of
              Inl e \<Rightarrow> Crashed e
            | Inr pattern \<Rightarrow> PromptActive BulkEnumerate s pattern (int (length pattern)))
      else if key = ord CHR ''S''
      then PromptActive StripPattern s ''^'' 1
      else if key = ord CHR ''r''
      then (case py_getitem fl cur of
              Inl e \<Rightarrow> Crashed e
            | Inr old_name \<Rightarrow>
                PromptActive (SingleRename old_name) s old_name (int (length old_name)))
      else Running s)"

text \<open>
  The loop of the strip branch, \<open>for i, v in enumerate(files)\<close>: slot \<open>i\<close> is read, then
  possibly renamed and overwritten, before slot \<open>i + 1\<close> is read. It returns the file
  system reached, with the new list and \<open>count\<close> (here \<open>cnt\<close>), or with the first
  exception: the branch has no handler, and the renames done before the exception stay
  done.
\<close>

fun strip_files ::
  "'fs rename_fn \<Rightarrow> sub_fn \<Rightarrow> string option \<Rightarrow> 'fs \<Rightarrow> string list \<Rightarrow> 'fs \<times> (string list \<times> nat) lib"
where
  "strip_files rn rs pattern fs [] = (fs, Returns ([], 0))"
| "strip_files rn rs pattern fs (v # vs) =
     (case re_sub rs pattern v of
        Raises e \<Rightarrow> (fs, Raises e)
      | NotModelled \<Rightarrow> (fs, NotModelled)
      | Returns new_name \<Rightarrow>
          if new_name \<noteq> v
          then (case rn fs v new_name of
                  Inl reason \<Rightarrow> (fs, Raises (OSError reason))
                | Inr fs' \<Rightarrow>
                    (case strip_files rn rs pattern fs' vs of
                       (fs'', Returns (vs', cnt)) \<Rightarrow> (fs'', Returns (new_name # vs', Suc cnt))
                     | (fs'', Raises e) \<Rightarrow> (fs'', Raises e)
                     | (fs'', NotModelled) \<Rightarrow> (fs'', NotModelled)))
          else (case strip_files rn rs pattern fs vs of
                  (fs'', Returns (vs', cnt)) \<Rightarrow> (fs'', Returns (v # vs', cnt))
                | (fs'', Raises e) \<Rightarrow> (fs'', Raises e)
                | (fs'', NotModelled) \<Rightarrow> (fs'', NotModelled)))"

text \<open>What \<open>main\<close> does with the value \<open>prompt_user\<close> returned, in each of its three callers.\<close>

definition after_prompt ::
  "'fs rename_fn \<Rightarrow> sub_fn \<Rightarrow> 'fs \<Rightarrow> prompt_kind \<Rightarrow> ui_state \<Rightarrow> string option \<Rightarrow> 'fs \<times> session"
where
  "after_prompt rn rs fs kind s answer =
     (case kind of
        BulkEnumerate \<Rightarrow> (fs, Exiting (files s) answer)
      | StripPattern \<Rightarrow>
          (case strip_files rn rs answer fs (files s) of
             (fs', Raises e) \<Rightarrow> (fs', Crashed e)
           | (fs', NotModelled) \<Rightarrow> (fs', OutsideModel)
           | (fs', Returns (fl', cnt)) \<Rightarrow>
               (fs', Running (s\<lparr>files := fl',
                  message := ''Renamed '' @ str_nat cnt @ '' files''\<rparr>)))
      | SingleRename old_name \<Rightarrow>
          (case answer of
             None \<Rightarrow> (fs, Running s)
           | Some new_name \<Rightarrow>
               if new_name \<noteq> old_name
               then (case rn fs old_name new_name of
                       Inl reason \<Rightarrow> (fs, Running (s\<lparr>message := ''Error: '' @ reason\<rparr>))
                     | Inr fs' \<Rightarrow>
                         (case py_setitem (files s) (current_idx s) new_name of
                            Inl e \<Rightarrow>
                              (fs', Running (s\<lparr>message :=
                                 ''Error: list assignment index out of range''\<rparr>))
                          | Inr fl' \<Rightarrow>
                              (fs', Running (s\<lparr>files := fl',
                                 message := ''Renamed '' @ [CHR 0x27] @ old_name @ [CHR 0x27]
                                   @ '' to '' @ [CHR 0x27] @ new_name @ [CHR 0x27]\<rparr>))))
               else (fs, Running s)))"

text \<open>One key event of the session, and a sequence of them.\<close>

definition step :: "'fs rename_fn \<Rightarrow> sub_fn \<Rightarrow> 'fs \<times> session \<Rightarrow> int \<Rightarrow> 'fs \<times> session" where
  "step rn rs c key =
     (case snd c of
        Running s \<Rightarrow> (fst c, main_key s key)
      | PromptActive kind s buffer cursor_pos \<Rightarrow>
          (case prompt_key buffer cursor_pos key of
             Editing b p \<Rightarrow> (fst c, PromptActive kind s b p)
           | Resolved answer \<Rightarrow> after_prompt rn rs (fst c) kind s answer
           | Faulted e \<Rightarrow> (fst c, Crashed e))
      | Exiting fl pattern \<Rightarrow> c
      | Crashed e \<Rightarrow> c
      | OutsideModel \<Rightarrow> c)"

definition run :: "'fs rename_fn \<Rightarrow> sub_fn \<Rightarrow> 'fs \<times> session \<Rightarrow> int list \<Rightarrow> 'fs \<times> session" where
  "run rn rs c keys = foldl (step rn rs) c keys"

definition initial :: "string list \<Rightarrow> ui_state" where
  "initial argv = \<lparr>files = argv, current_idx = 0, first_selection = None, message = []\<rparr>"

section \<open>The entry point and the final enumerate rename\<close>

text \<open>
  \<open>for i, f in enumerate(files): os.rename(f, f"{pattern%(i+1)} {f}")\<close>, from index \<open>i\<close>:
  the file system reached, with \<open>Returns ()\<close> when the loop ends or with the exception
  that stopped it.
\<close>

fun enumerate_rename ::
  "'fs rename_fn \<Rightarrow> string \<Rightarrow> 'fs \<Rightarrow> nat \<Rightarrow> string list \<Rightarrow> 'fs \<times> unit lib"
where
  "enumerate_rename rn pattern fs i [] = (fs, Returns ())"
| "enumerate_rename rn pattern fs i (f # rest) =
     (case py_format pattern False (int i + 1) of
        Raises e \<Rightarrow> (fs, Raises e)
      | NotModelled \<Rightarrow> (fs, NotModelled)
      | Returns numbered \<Rightarrow>
          (case rn fs f (numbered @ '' '' @ f) of
             Inl reason \<Rightarrow> (fs, Raises (OSError reason))
           | Inr fs' \<Rightarrow> enumerate_rename rn pattern fs' (Suc i) rest))"

text \<open>
  How a run on a finite supply of keys ends: the usage message, waiting for a key, a
  normal end, or a traceback, each with the file system reached; \<open>OutsideModelExit\<close> when
  the run met an input on which a library function is \<open>NotModelled\<close>.
\<close>

datatype 'fs exit =
  Usage | AwaitingKey | Finished 'fs | Traceback py_error 'fs | OutsideModelExit 'fs

definition program ::
  "'fs rename_fn \<Rightarrow> sub_fn \<Rightarrow> 'fs \<Rightarrow> string list \<Rightarrow> int list \<Rightarrow> 'fs exit"
where
  "program rn rs fs argv keys =
     (if argv = [] then Usage
      else (case run rn rs (fs, Running (initial argv)) keys of
              (fs', Exiting fl None) \<Rightarrow> Finished fs'
            | (fs', Exiting fl (Some pattern)) \<Rightarrow>
                (case enumerate_rename rn pattern fs' 0 fl of
                   (fs'', Returns u) \<Rightarrow> Finished fs''
                 | (fs'', Raises e) \<Rightarrow> Traceback e fs''
                 | (fs'', NotModelled) \<Rightarrow> OutsideModelExit fs'')
            | (fs', Crashed e) \<Rightarrow> Traceback e fs'
            | (fs', OutsideModel) \<Rightarrow> OutsideModelExit fs'
            | (fs', Running s) \<Rightarrow> AwaitingKey
            | (fs', PromptActive kind s buffer cursor_pos) \<Rightarrow> AwaitingKey))"


section \<open>Observations used to state the properties\<close>

text \<open>The positions at which two lists of the same length differ, in increasing order.\<close>

definition changed_positions :: "'a list \<Rightarrow> 'a list \<Rightarrow> nat list" where
  "changed_positions xs ys = filter (\<lambda>i. xs ! i \<noteq> ys ! i) [0..<length xs]"

text \<open>
  The spec's reading of the strip rename, for a literal pattern: only the first occurrence
  of the pattern is removed. It is compared with what the program does; the program does
  not use it.
\<close>

fun spec_remove_first :: "string \<Rightarrow> string \<Rightarrow> string" where
  "spec_remove_first p [] = []"
| "spec_remove_first p (c # cs) =
     (if p \<noteq> [] \<and> take (length p) (c # cs) = p
      then drop (length p) (c # cs)
      else c # spec_remove_first p cs)"

text \<open>
  A list of renames done in order, up to the first that fails: the file system reached,
  and the reason of the failure, if any.
\<close>

fun rename_all :: "'fs rename_fn \<Rightarrow> 'fs \<Rightarrow> (string \<times> string) list \<Rightarrow> 'fs \<times> string option" where
  "rename_all rn fs [] = (fs, None)"
| "rename_all rn fs ((old, new) # rest) =
     (case rn fs old new of
        Inl reason \<Rightarrow> (fs, Some reason)
      | Inr fs' \<Rightarrow> rename_all rn fs' rest)"

section \<open>Python list operations at indices in range\<close>

lemma py_getitem_in: "0 \<le> i \<Longrightarrow> i < int (length xs) \<Longrightarrow> py_getitem xs i = Inr (xs ! nat i)"
  by (simp add: py_getitem_def norm_index_def)

lemma py_setitem_in:
  "0 \<le> i \<Longrightarrow> i < int (length xs) \<Longrightarrow> py_setitem xs i v = Inr (xs[nat i := v])"
  by (simp add: py_setitem_def norm_index_def)

lemma py_pop_in:
  "0 \<le> i \<Longrightarrow> i < int (length xs) \<Longrightarrow>
   py_pop xs i = Inr (take (nat i) xs @ drop (Suc (nat i)) xs)"
  by (simp add: py_pop_def norm_index_def)

lemma py_insert_in:
  "0 \<le> i \<Longrightarrow> i \<le> int (length xs) \<Longrightarrow>
   py_insert xs i v = take (nat i) xs @ v # drop (nat i) xs"
  by (simp add: py_insert_def norm_index_def Let_def)

lemma wrap_move_range:
  "fl \<noteq> [] \<Longrightarrow> 0 \<le> wrap_move fl c d \<and> wrap_move fl c d < int (length fl)"
  by (simp add: wrap_move_def)

lemma swap_items_in:
  assumes "0 \<le> i" "i < int (length xs)" "0 \<le> j" "j < int (length xs)"
  shows "swap_items xs i j = Inr (xs[nat i := xs ! nat j, nat j := xs ! nat i])"
  using assms by (simp add: swap_items_def py_getitem_in py_setitem_in)

lemma insert_at_props:
  assumes "k \<le> length ys"
  shows "(take k ys @ v # drop k ys) ! k = v"
    and "take k (take k ys @ v # drop k ys) @ drop (Suc k) (take k ys @ v # drop k ys) = ys"
    and "length (take k ys @ v # drop k ys) = Suc (length ys)"
  using assms by (simp_all add: nth_append min_def)

section \<open>Cursor movement\<close>

text \<open>
  C9. On a list of length \<open>N \<ge> 1\<close>, the keys Up and \<open>k\<close> set the cursor index to
  \<open>(current_idx - 1) mod N\<close> and the keys Down and \<open>j\<close> set it to \<open>(current_idx + 1) mod N\<close>,
  changing nothing else (the message is cleared); from index 0 the move up gives \<open>N - 1\<close>,
  and from index \<open>N - 1\<close> the move down gives 0.
\<close>

theorem cursor_move_wraps:
  assumes "files s \<noteq> []" and "N = int (length (files s))"
  shows "(key = KEY_UP \<or> key = ord CHR ''k'' \<longrightarrow>
            step rn rs (fs, Running s) key =
              (fs, Running (s\<lparr>message := [], current_idx := (current_idx s - 1) mod N\<rparr>)))
       \<and> (key = KEY_DOWN \<or> key = ord CHR ''j'' \<longrightarrow>
            step rn rs (fs, Running s) key =
              (fs, Running (s\<lparr>message := [], current_idx := (current_idx s + 1) mod N\<rparr>)))
       \<and> (current_idx s = 0 \<longrightarrow> (current_idx s - 1) mod N = N - 1)
       \<and> (current_idx s = N - 1 \<longrightarrow> (current_idx s + 1) mod N = 0)"
proof -
  have pos: "0 < N"
    using assms by simp
  have up: "key = KEY_UP \<or> key = ord CHR ''k'' \<Longrightarrow>
      step rn rs (fs, Running s) key =
        (fs, Running (s\<lparr>message := [], current_idx := (current_idx s - 1) mod N\<rparr>))"
    using assms by (auto simp: step_def main_key_def wrap_move_def Let_def)
  have down: "key = KEY_DOWN \<or> key = ord CHR ''j'' \<Longrightarrow>
      step rn rs (fs, Running s) key =
        (fs, Running (s\<lparr>message := [], current_idx := (current_idx s + 1) mod N\<rparr>))"
    using assms by (auto simp: step_def main_key_def wrap_move_def Let_def)
  have first: "(0 - 1) mod N = N - 1"
    using pos by (simp add: zmod_minus1)
  have last: "(N - 1 + 1) mod N = 0"
    by simp
  show ?thesis
    using up down first last by auto
qed

theorem cursor_move_wraps_witness:
  "files (initial [''a'', ''b'', ''c'']) \<noteq> []
   \<and> current_idx (initial [''a'', ''b'', ''c'']) = 0
   \<and> step rename_log re_sub_literal ([], Running (initial [''a'', ''b'', ''c''])) KEY_UP =
       ([], Running \<lparr>files = [''a'', ''b'', ''c''], current_idx = 2,
                      first_selection = None, message = []\<rparr>)
   \<and> step rename_log re_sub_literal
        ([], Running \<lparr>files = [''a'', ''b'', ''c''], current_idx = 2,
                       first_selection = None, message = []\<rparr>) KEY_DOWN =
       ([], Running \<lparr>files = [''a'', ''b'', ''c''], current_idx = 0,
                      first_selection = None, message = []\<rparr>)"
  using cursor_move_wraps [of "initial [''a'', ''b'', ''c'']" 3 KEY_UP rename_log re_sub_literal "[]"]
    cursor_move_wraps [of "\<lparr>files = [''a'', ''b'', ''c''], current_idx = 2,
                       first_selection = None, message = []\<rparr>" 3 KEY_DOWN
                       rename_log re_sub_literal "[]"]
  by (simp add: initial_def)


section \<open>Adjacent swap moves\<close>

lemma swap_move_step:
  assumes ne: "files s \<noteq> []"
    and c: "0 \<le> current_idx s" "current_idx s < int (length (files s))"
    and key: "key = ord CHR ''K'' \<or> key = ord CHR ''J''"
    and new: "new = (current_idx s + (if key = ord CHR ''K'' then - 1 else 1))
                      mod int (length (files s))"
  shows "step rn rs (fs, Running s) key =
           (fs, Running (s\<lparr>message := [],
              files := (files s)[nat (current_idx s) := files s ! nat new,
                                 nat new := files s ! nat (current_idx s)],
              current_idx := new,
              first_selection :=
                (if Some new = first_selection s
                 then Some (if key = ord CHR ''K''
                            then min (new + 1) (int (length (files s)) - 1)
                            else max (new - 1) 0)
                 else first_selection s)\<rparr>))"
proof -
  have n: "0 \<le> new" "new < int (length (files s))"
    using ne new by simp_all
  have w: "wrap_move (files s) (current_idx s) (if key = ord CHR ''K'' then - 1 else 1) = new"
    using ne new by (simp add: wrap_move_def)
  have sw: "swap_items (files s) (current_idx s) new =
      Inr ((files s)[nat (current_idx s) := files s ! nat new,
                     nat new := files s ! nat (current_idx s)])"
    using swap_items_in [OF c n] .
  show ?thesis
  proof (cases "key = ord CHR ''K''")
    case True
    then show ?thesis
      using w sw by (simp add: step_def main_key_def Let_def)
  next
    case False
    with key have "key = ord CHR ''J''" by simp
    then show ?thesis
      using w sw by (simp add: step_def main_key_def Let_def)
  qed
qed

lemma changed_positions_swap:
  "set (changed_positions xs (xs[i := a, j := b])) \<subseteq> {i, j}"
proof
  fix x
  assume "x \<in> set (changed_positions xs (xs[i := a, j := b]))"
  then have "xs ! x \<noteq> xs[i := a, j := b] ! x"
    by (simp add: changed_positions_def)
  then have "x = i \<or> x = j"
    by (metis nth_list_update_neq)
  then show "x \<in> {i, j}" by simp
qed


lemma swap_moves_run:
  assumes "set ks \<subseteq> {ord CHR ''K'', ord CHR ''J''}" "files s \<noteq> []"
    "0 \<le> current_idx s" "current_idx s < int (length (files s))"
  shows "\<exists>s'. run rn rs (fs, Running s) ks = (fs, Running s')
           \<and> mset (files s') = mset (files s)"
  using assms
proof (induction ks arbitrary: s)
  case Nil
  then show ?case by (simp add: run_def)
next
  case (Cons k ks)
  define new where "new = (current_idx s + (if k = ord CHR ''K'' then - 1 else 1))
                      mod int (length (files s))"
  define t where "t = s\<lparr>message := [],
              files := (files s)[nat (current_idx s) := files s ! nat new,
                                 nat new := files s ! nat (current_idx s)],
              current_idx := new,
              first_selection :=
                (if Some new = first_selection s
                 then Some (if k = ord CHR ''K''
                            then min (new + 1) (int (length (files s)) - 1)
                            else max (new - 1) 0)
                 else first_selection s)\<rparr>"
  have kk: "k = ord CHR ''K'' \<or> k = ord CHR ''J''"
    using Cons.prems(1) by simp
  have n: "0 \<le> new" "new < int (length (files s))"
    using Cons.prems(2) by (simp_all add: new_def)
  have st: "step rn rs (fs, Running s) k = (fs, Running t)"
    unfolding t_def using swap_move_step [OF Cons.prems(2,3,4) kk new_def] .
  have m: "mset (files t) = mset (files s)"
    using n Cons.prems(3,4) by (simp add: t_def mset_swap)
  have v: "files t \<noteq> []" "0 \<le> current_idx t" "current_idx t < int (length (files t))"
    using n Cons.prems(2) by (simp_all add: t_def)
  have "set ks \<subseteq> {ord CHR ''K'', ord CHR ''J''}"
    using Cons.prems(1) by simp
  from Cons.IH [OF this v] obtain s' where
    r: "run rn rs (fs, Running t) ks = (fs, Running s')" and m': "mset (files s') = mset (files t)"
    by blast
  have "run rn rs (fs, Running s) (k # ks) = run rn rs (fs, Running t) ks"
    using st by (simp add: run_def)
  with r m m' show ?case by simp
qed



text \<open>
  C2, as the code has it. On a non-empty list with a valid cursor, every sequence of the
  keys \<open>K\<close> and \<open>J\<close> leaves the session running with the same multiset of items. One such
  key moves the cursor to \<open>(current_idx - 1) mod N\<close> (\<open>K\<close>) or \<open>(current_idx + 1) mod N\<close>
  (\<open>J\<close>) and exchanges the items at the old and the new cursor index; no other position
  changes. The two positions are neighbours modulo \<open>N\<close>: at the boundary they are the
  first and the last position.
\<close>

theorem swap_moves_permute:
  assumes "files s \<noteq> []" "0 \<le> current_idx s" "current_idx s < int (length (files s))"
  shows "(set ks \<subseteq> {ord CHR ''K'', ord CHR ''J''} \<longrightarrow>
            (\<exists>s'. run rn rs (fs, Running s) ks = (fs, Running s')
                 \<and> mset (files s') = mset (files s)))
       \<and> (key = ord CHR ''K'' \<or> key = ord CHR ''J'' \<longrightarrow>
            (\<exists>s'. step rn rs (fs, Running s) key = (fs, Running s')
                 \<and> current_idx s' = (current_idx s + (if key = ord CHR ''K'' then - 1 else 1))
                                      mod int (length (files s))
                 \<and> length (files s') = length (files s)
                 \<and> set (changed_positions (files s) (files s'))
                      \<subseteq> {nat (current_idx s), nat (current_idx s')}
                 \<and> files s' ! nat (current_idx s') = files s ! nat (current_idx s)
                 \<and> files s' ! nat (current_idx s) = files s ! nat (current_idx s')))"
proof -
  have seq: "\<exists>s'. run rn rs (fs, Running s) ks = (fs, Running s') \<and> mset (files s') = mset (files s)"
    if "set ks \<subseteq> {ord CHR ''K'', ord CHR ''J''}"
    using swap_moves_run [OF that assms] .
  have one: "\<exists>s'. step rn rs (fs, Running s) key = (fs, Running s')
                 \<and> current_idx s' = (current_idx s + (if key = ord CHR ''K'' then - 1 else 1))
                                      mod int (length (files s))
                 \<and> length (files s') = length (files s)
                 \<and> set (changed_positions (files s) (files s'))
                      \<subseteq> {nat (current_idx s), nat (current_idx s')}
                 \<and> files s' ! nat (current_idx s') = files s ! nat (current_idx s)
                 \<and> files s' ! nat (current_idx s) = files s ! nat (current_idx s')"
    if key: "key = ord CHR ''K'' \<or> key = ord CHR ''J''"
  proof -
    define new where "new = (current_idx s + (if key = ord CHR ''K'' then - 1 else 1))
                      mod int (length (files s))"
    define fl' where "fl' = (files s)[nat (current_idx s) := files s ! nat new,
                                 nat new := files s ! nat (current_idx s)]"
    define t where "t = s\<lparr>message := [], files := fl', current_idx := new,
              first_selection :=
                (if Some new = first_selection s
                 then Some (if key = ord CHR ''K''
                            then min (new + 1) (int (length (files s)) - 1)
                            else max (new - 1) 0)
                 else first_selection s)\<rparr>"
    have n: "0 \<le> new" "new < int (length (files s))"
      using assms(1) by (simp_all add: new_def)
    have st: "step rn rs (fs, Running s) key = (fs, Running t)"
      unfolding t_def fl'_def using swap_move_step [OF assms key new_def] .
    have a: "fl' ! nat new = files s ! nat (current_idx s)"
      using n by (simp add: fl'_def)
    have b: "fl' ! nat (current_idx s) = files s ! nat new"
      using n assms(2,3) by (simp add: fl'_def nth_list_update)
    have c: "set (changed_positions (files s) fl') \<subseteq> {nat (current_idx s), nat new}"
      unfolding fl'_def by (rule changed_positions_swap)
    have l: "length fl' = length (files s)"
      by (simp add: fl'_def)
    have ct: "current_idx t = new" and ft: "files t = fl'"
      by (simp_all add: t_def)
    have "step rn rs (fs, Running s) key = (fs, Running t)
        \<and> current_idx t = new
        \<and> length (files t) = length (files s)
        \<and> set (changed_positions (files s) (files t))
             \<subseteq> {nat (current_idx s), nat (current_idx t)}
        \<and> files t ! nat (current_idx t) = files s ! nat (current_idx s)
        \<and> files t ! nat (current_idx s) = files s ! nat (current_idx t)"
      using st a b c l by (simp only: ct ft simp_thms)
    then show ?thesis
      unfolding new_def by (rule exI)
  qed
  show ?thesis
  proof (intro conjI impI)
    assume "set ks \<subseteq> {ord CHR ''K'', ord CHR ''J''}"
    then show "\<exists>s'. run rn rs (fs, Running s) ks = (fs, Running s')
        \<and> mset (files s') = mset (files s)"
      by (rule seq)
  next
    assume "key = ord CHR ''K'' \<or> key = ord CHR ''J''"
    then show "\<exists>s'. step rn rs (fs, Running s) key = (fs, Running s')
                 \<and> current_idx s' = (current_idx s + (if key = ord CHR ''K'' then - 1 else 1))
                                      mod int (length (files s))
                 \<and> length (files s') = length (files s)
                 \<and> set (changed_positions (files s) (files s'))
                      \<subseteq> {nat (current_idx s), nat (current_idx s')}
                 \<and> files s' ! nat (current_idx s') = files s ! nat (current_idx s)
                 \<and> files s' ! nat (current_idx s) = files s ! nat (current_idx s')"
      by (rule one)
  qed
qed

theorem swap_moves_permute_witness:
  "files (initial [''a'', ''b'', ''c'']) \<noteq> []
   \<and> set [ord CHR ''K'', ord CHR ''J'', ord CHR ''J''] \<subseteq> {ord CHR ''K'', ord CHR ''J''}
   \<and> (\<exists>s'. run rename_log re_sub_literal ([], Running (initial [''a'', ''b'', ''c'']))
               [ord CHR ''K'', ord CHR ''J'', ord CHR ''J''] = ([], Running s')
           \<and> mset (files s') = mset (files (initial [''a'', ''b'', ''c''])))
   \<and> (\<exists>s'. step rename_log re_sub_literal ([], Running (initial [''a'', ''b'', ''c'']))
               (ord CHR ''J'') = ([], Running s')
           \<and> current_idx s' = 1
           \<and> set (changed_positions (files (initial [''a'', ''b'', ''c''])) (files s'))
                \<subseteq> {nat (current_idx (initial [''a'', ''b'', ''c''])), nat (current_idx s')})"
proof -
  have v: "files (initial [''a'', ''b'', ''c'']) \<noteq> []"
    "0 \<le> current_idx (initial [''a'', ''b'', ''c''])"
    "current_idx (initial [''a'', ''b'', ''c'']) < int (length (files (initial [''a'', ''b'', ''c''])))"
    by (simp_all add: initial_def)
  have k: "set [ord CHR ''K'', ord CHR ''J'', ord CHR ''J''] \<subseteq> {ord CHR ''K'', ord CHR ''J''}"
    by simp
  have j: "ord CHR ''J'' = ord CHR ''K'' \<or> ord CHR ''J'' = ord CHR ''J''"
    by simp
  have m: "(current_idx (initial [''a'', ''b'', ''c''])
             + (if ord CHR ''J'' = ord CHR ''K'' then - 1 else 1))
           mod int (length (files (initial [''a'', ''b'', ''c'']))) = 1"
    by (simp add: initial_def)
  note t = swap_moves_permute [OF v, of "[ord CHR ''K'', ord CHR ''J'', ord CHR ''J'']"
      rename_log re_sub_literal "[]" "ord CHR ''J''"]
  have p1: "\<exists>s'. run rename_log re_sub_literal ([], Running (initial [''a'', ''b'', ''c'']))
               [ord CHR ''K'', ord CHR ''J'', ord CHR ''J''] = ([], Running s')
           \<and> mset (files s') = mset (files (initial [''a'', ''b'', ''c'']))"
    using t [THEN conjunct1, THEN mp, OF k] .
  obtain s' where q: "step rename_log re_sub_literal ([], Running (initial [''a'', ''b'', ''c'']))
               (ord CHR ''J'') = ([], Running s')"
      "current_idx s' = (current_idx (initial [''a'', ''b'', ''c''])
             + (if ord CHR ''J'' = ord CHR ''K'' then - 1 else 1))
           mod int (length (files (initial [''a'', ''b'', ''c''])))"
      "set (changed_positions (files (initial [''a'', ''b'', ''c''])) (files s'))
                \<subseteq> {nat (current_idx (initial [''a'', ''b'', ''c''])), nat (current_idx s')}"
    using t [THEN conjunct2, THEN mp, OF j] by (elim exE conjE)
  have "current_idx s' = 1"
    using q(2) m by (rule trans)
  with q(1,3) have p2: "\<exists>s'. step rename_log re_sub_literal ([], Running (initial [''a'', ''b'', ''c'']))
               (ord CHR ''J'') = ([], Running s')
           \<and> current_idx s' = 1
           \<and> set (changed_positions (files (initial [''a'', ''b'', ''c''])) (files s'))
                \<subseteq> {nat (current_idx (initial [''a'', ''b'', ''c''])), nat (current_idx s')}"
    by (intro exI conjI)
  show ?thesis
    using v(1) k p1 p2 by (intro conjI)
qed


text \<open>
  C2, as stated, fails at the boundary: on \<open>[a, b, c]\<close> with the cursor at index 0 the
  key \<open>K\<close> exchanges the positions 0 and 2, which are not adjacent.
\<close>

theorem swap_move_not_adjacent:
  "step rename_log re_sub_literal ([], Running (initial [''a'', ''b'', ''c''])) (ord CHR ''K'') =
     ([], Running \<lparr>files = [''c'', ''b'', ''a''], current_idx = 2,
                    first_selection = None, message = []\<rparr>)
   \<and> changed_positions [''a'', ''b'', ''c''] [''c'', ''b'', ''a''] = [0, 2]"
  by code_simp

section \<open>Pick-up and drop\<close>

lemma drop_item_in:
  assumes "0 \<le> A" "A < int (length fl)" "0 \<le> B" "B < int (length fl)" "A \<noteq> B"
  shows "drop_item fl A B =
    Inr (take (nat B) (take (nat A) fl @ drop (Suc (nat A)) fl) @ fl ! nat A
          # drop (nat B) (take (nat A) fl @ drop (Suc (nat A)) fl))"
proof -
  have len: "length (take (nat A) fl @ drop (Suc (nat A)) fl) = length fl - 1"
    using assms by (simp add: min_def)
  have "B \<le> int (length (take (nat A) fl @ drop (Suc (nat A)) fl))"
    using assms len by linarith
  then show ?thesis
    using assms by (simp add: drop_item_def py_getitem_in py_pop_in py_insert_in del: length_append)
qed


text \<open>
  C4. Space or Enter with no anchor sets the anchor to the cursor index. Space or Enter
  with the anchor at \<open>A\<close> and the cursor at \<open>B\<close> clears the anchor and leaves the cursor at
  \<open>B\<close>; when \<open>A = B\<close> the list is unchanged; when \<open>A \<noteq> B\<close> the item that was at \<open>A\<close> is
  at \<open>B\<close>, and the list without that item is the same sequence before and after, so all
  other items keep their relative order.
\<close>

theorem pick_up_then_drop:
  assumes key: "key \<in> {KEY_ENTER, 10, 13, ord CHR '' ''}"
    and A: "0 \<le> A" "A < int (length (files s))"
    and B: "0 \<le> B" "B < int (length (files s))"
    and sel: "first_selection s = Some A" and cur: "current_idx s = B"
  shows "(first_selection s0 = None \<longrightarrow>
            step rn rs (fs, Running s0) key =
              (fs, Running (s0\<lparr>message := [], first_selection := Some (current_idx s0)\<rparr>)))
       \<and> (\<exists>fl'. step rn rs (fs, Running s) key =
                   (fs, Running (s\<lparr>message := [], files := fl', first_selection := None\<rparr>))
              \<and> (A = B \<longrightarrow> fl' = files s)
              \<and> (A \<noteq> B \<longrightarrow> length fl' = length (files s)
                    \<and> fl' ! nat B = files s ! nat A
                    \<and> take (nat B) fl' @ drop (Suc (nat B)) fl'
                        = take (nat A) (files s) @ drop (Suc (nat A)) (files s)))"
proof (intro conjI impI)
  assume "first_selection s0 = None"
  then show "step rn rs (fs, Running s0) key =
      (fs, Running (s0\<lparr>message := [], first_selection := Some (current_idx s0)\<rparr>))"
    using key by (auto simp: step_def main_key_def Let_def)
next
  show "\<exists>fl'. step rn rs (fs, Running s) key =
                   (fs, Running (s\<lparr>message := [], files := fl', first_selection := None\<rparr>))
              \<and> (A = B \<longrightarrow> fl' = files s)
              \<and> (A \<noteq> B \<longrightarrow> length fl' = length (files s)
                    \<and> fl' ! nat B = files s ! nat A
                    \<and> take (nat B) fl' @ drop (Suc (nat B)) fl'
                        = take (nat A) (files s) @ drop (Suc (nat A)) (files s))"
  proof (cases "A = B")
    case True
    have "step rn rs (fs, Running s) key =
        (fs, Running (s\<lparr>message := [], files := files s, first_selection := None\<rparr>))"
      using key sel cur True by (auto simp: step_def main_key_def drop_item_def Let_def)
    with True show ?thesis by blast
  next
    case False
    define ys where "ys = take (nat A) (files s) @ drop (Suc (nat A)) (files s)"
    define fl' where "fl' = take (nat B) ys @ files s ! nat A # drop (nat B) ys"
    have len: "length ys = length (files s) - 1"
      using A by (simp add: ys_def min_def)
    have k: "nat B \<le> length ys"
      using B A len by linarith
    have d: "drop_item (files s) A B = Inr fl'"
      using drop_item_in [OF A B False] by (simp add: fl'_def ys_def)
    have st: "step rn rs (fs, Running s) key =
        (fs, Running (s\<lparr>message := [], files := fl', first_selection := None\<rparr>))"
      using key sel cur d by (auto simp: step_def main_key_def Let_def)
    have p1: "fl' ! nat B = files s ! nat A"
      unfolding fl'_def using insert_at_props(1) [OF k] .
    have p2: "take (nat B) fl' @ drop (Suc (nat B)) fl' = ys"
      unfolding fl'_def using insert_at_props(2) [OF k] .
    have p3: "length fl' = length (files s)"
      unfolding fl'_def using insert_at_props(3) [OF k, of "files s ! nat A"] len A by simp
    show ?thesis
      using st p1 p2 p3 False unfolding ys_def by blast
  qed
qed

theorem pick_up_then_drop_witness:
  "(32::int) \<in> {KEY_ENTER, 10, 13, ord CHR '' ''}
   \<and> step rename_log re_sub_literal
        ([], Running \<lparr>files = [''a'', ''b'', ''c'', ''d''], current_idx = 0,
                       first_selection = None, message = []\<rparr>) 32 =
       ([], Running \<lparr>files = [''a'', ''b'', ''c'', ''d''], current_idx = 0,
                      first_selection = Some 0, message = []\<rparr>)
   \<and> (\<exists>fl'. step rename_log re_sub_literal
               ([], Running \<lparr>files = [''a'', ''b'', ''c'', ''d''], current_idx = 2,
                              first_selection = Some 0, message = []\<rparr>) 32 =
               ([], Running \<lparr>files = fl', current_idx = 2,
                              first_selection = None, message = []\<rparr>)
            \<and> length fl' = length [''a'', ''b'', ''c'', ''d''] \<and> fl' ! 2 = ''a''
            \<and> take 2 fl' @ drop 3 fl' = [''b'', ''c'', ''d''])"
  using pick_up_then_drop [of 32 0 "\<lparr>files = [''a'', ''b'', ''c'', ''d''], current_idx = 2,
                              first_selection = Some 0, message = []\<rparr>" 2
      "\<lparr>files = [''a'', ''b'', ''c'', ''d''], current_idx = 0,
                       first_selection = None, message = []\<rparr>" rename_log re_sub_literal "[]"]
  by simp


section \<open>The anchor under a swap move\<close>

text \<open>
  C3. The keys \<open>j\<close>, Space, \<open>K\<close> on \<open>[a, b, c]\<close>: after \<open>j\<close> and Space the cursor and the
  anchor are both at index 1, the item \<open>b\<close>. The key \<open>K\<close> moves the cursor to index 0
  without wrapping and exchanges \<open>a\<close> and \<open>b\<close>; the anchor, which is re-indexed only when
  it equals the new cursor index, stays at index 1 and now denotes \<open>a\<close>.
\<close>

theorem anchor_left_behind:
  "run rename_log re_sub_literal ([], Running (initial [''a'', ''b'', ''c'']))
     [ord CHR ''j'', 32] =
     ([], Running \<lparr>files = [''a'', ''b'', ''c''], current_idx = 1,
                    first_selection = Some 1, message = []\<rparr>)
   \<and> run rename_log re_sub_literal ([], Running (initial [''a'', ''b'', ''c'']))
       [ord CHR ''j'', 32, ord CHR ''K''] =
       ([], Running \<lparr>files = [''b'', ''a'', ''c''], current_idx = 0,
                      first_selection = Some 1, message = []\<rparr>)"
  by code_simp

section \<open>Delete-forward in the line editor\<close>

text \<open>
  C7. A prompt opens with the cursor after the last character of its default. With the
  default \<open>abc\<close>, Ctrl-D as the first key passes the guard \<open>len(buffer) > 0\<close> and calls
  \<open>buffer.pop(3)\<close>, which raises IndexError; in the rename prompt of a session the
  exception leaves \<open>main\<close>.
\<close>

theorem delete_forward_at_end_raises:
  "prompt_user ''abc'' [4] = Some (Inl IndexError, [])
   \<and> run rename_log re_sub_literal ([], Running (initial [''abc''])) [ord CHR ''r'', 4] =
       ([], Crashed IndexError)"
  by code_simp

section \<open>A rename that fails\<close>

text \<open>
  C6. The file \<open>a1\<close> does not exist. In the single rename (\<open>r\<close>, type \<open>x\<close>, Enter) the
  failure is caught: the list is unchanged, the message carries the reason and the session
  runs on. In the strip rename (\<open>S\<close>, Backspace, type \<open>1\<close>, Enter) the same failure is not
  caught: the exception leaves \<open>main\<close>.
\<close>

theorem strip_rename_failure_escapes:
  "run rename_paths re_sub_literal ({}, Running (initial [''a1'']))
     [ord CHR ''r'', ord CHR ''x'', 10] =
     ({}, Running \<lparr>files = [''a1''], current_idx = 0, first_selection = None,
                    message = ''Error: No such file or directory''\<rparr>)
   \<and> run rename_paths re_sub_literal ({}, Running (initial [''a1'']))
       [ord CHR ''S'', KEY_BACKSPACE, ord CHR ''1'', 10] =
       ({}, Crashed (OSError ''No such file or directory''))"
  by code_simp

section \<open>The final enumerate rename with the default pattern\<close>

text \<open>
  C1. Ten files, the key \<open>x\<close>, and Enter on the default of the prompt: the default is
  \<open>%01d\<close>, a field of width 1, and the ten renames, each file once and in list order,
  prefix the numbers \<open>1\<close> to \<open>10\<close>, not \<open>01\<close> to \<open>10\<close>.
\<close>

theorem ten_items_one_digit_field:
  "bulk_pattern [''a'', ''b'', ''c'', ''d'', ''e'', ''f'', ''g'', ''h'', ''i'', ''j''] = Inr ''%01d''
   \<and> program rename_log re_sub_literal []
       [''a'', ''b'', ''c'', ''d'', ''e'', ''f'', ''g'', ''h'', ''i'', ''j'']
       [ord CHR ''x'', 10] =
     Finished
       [(''a'', ''1 a''), (''b'', ''2 b''), (''c'', ''3 c''), (''d'', ''4 d''),
        (''e'', ''5 e''), (''f'', ''6 f''), (''g'', ''7 g''), (''h'', ''8 h''),
        (''i'', ''9 i''), (''j'', ''10 j'')]"
  by code_simp


section \<open>The cursor offset of the line editor\<close>

text \<open>
  C8, as the code has it. From a buffer with the cursor offset in \<open>[0, length]\<close>, every
  key after which the editor goes on editing leaves the offset in \<open>[0, length]\<close> of the
  new buffer, except Ctrl-E on the empty buffer; Ctrl-E leaves the buffer as it is and sets
  the offset to \<open>length - 1\<close>, which is \<open>-1\<close> on the empty buffer.
\<close>

theorem editing_keeps_offset_in_range:
  assumes "0 \<le> c" "c \<le> int (length b)" "prompt_key b c key = Editing b' c'"
  shows "(key = 5 \<longrightarrow> b' = b \<and> c' = int (length b) - 1)
       \<and> (key \<noteq> 5 \<or> b \<noteq> [] \<longrightarrow> 0 \<le> c' \<and> c' \<le> int (length b'))"
proof (cases "key = 4")
  case True
  then show ?thesis
    using assms
    by (auto simp: prompt_key_def py_pop_def norm_index_def Let_def split: if_splits)
next
  case False
  then show ?thesis
    using assms
    by (auto simp: prompt_key_def py_pop_def py_insert_def norm_index_def Let_def
             split: if_splits)
qed


theorem editing_keeps_offset_in_range_witness:
  "(0::int) \<le> 3 \<and> 3 \<le> int (length ''abc'')
   \<and> prompt_key ''abc'' 3 5 = Editing ''abc'' 2
   \<and> ''abc'' \<noteq> [] \<and> (0::int) \<le> 2 \<and> 2 \<le> int (length ''abc'')"
proof -
  have e: "prompt_key ''abc'' 3 5 = Editing ''abc'' 2"
    by code_simp
  have a: "(0::int) \<le> 3" "3 \<le> int (length ''abc'')"
    by simp_all
  from editing_keeps_offset_in_range [OF a e] e a show ?thesis
    by simp
qed


text \<open>
  C8, as stated, fails on the empty buffer, where \<open>length - 1\<close> is not in \<open>[0, length]\<close>:
  Ctrl-E sets the offset to \<open>-1\<close>. The empty buffer is reached in the rename prompt of the
  file \<open>a\<close> by one Backspace.
\<close>

theorem jump_to_end_on_empty_buffer:
  "prompt_key [] 0 5 = Editing [] (- 1)
   \<and> run rename_log re_sub_literal ([], Running (initial [''a'']))
       [ord CHR ''r'', KEY_BACKSPACE, 5] =
       ([], PromptActive (SingleRename ''a'') (initial [''a'']) [] (- 1))"
  by code_simp



section \<open>The transitions of the session\<close>

lemma main_key_exits:
  "main_key s k = Exiting fl pat \<longleftrightarrow>
     (k = ord CHR ''q'' \<or> k = ord CHR ''Q'') \<and> fl = files s \<and> pat = None"
  by (auto simp: main_key_def Let_def split: sum.splits option.splits)


lemma single_rename_resolves:
  assumes "prompt_key buffer cursor_pos key = Resolved answer"
  shows "\<exists>fs' s'. step rn rs (fs, PromptActive (SingleRename old_name) s buffer cursor_pos) key
           = (fs', Running s')"
  using assms by (auto simp: step_def after_prompt_def split: option.splits sum.splits)


text \<open>
  C10, as the code has it. When a key resolves the line editor (with \<open>Some\<close> text when
  confirmed, \<open>None\<close> when cancelled): the prompt of the single rename returns the session
  to \<open>Running\<close>; the prompt of the bulk enumerate moves it to \<open>Exiting\<close>, carrying the
  answer; the prompt of the strip rename returns it to \<open>Running\<close> when the strip loop
  raises nothing. A running session moves to \<open>Exiting\<close> in one key exactly on \<open>q\<close> and
  \<open>Q\<close>, carrying no pattern. The keys \<open>S\<close>, \<open>x\<close> or \<open>X\<close> (on a non-empty list) and \<open>r\<close>
  (with a valid cursor) open the prompt.
\<close>

theorem session_transitions:
  assumes res: "prompt_key buffer cursor_pos key = Resolved answer"
  shows "(\<exists>fs' s'. step rn rs (fs, PromptActive (SingleRename old_name) s buffer cursor_pos) key
            = (fs', Running s'))
       \<and> step rn rs (fs, PromptActive BulkEnumerate s buffer cursor_pos) key
            = (fs, Exiting (files s) answer)
       \<and> (strip_files rn rs answer fs (files s) = (fs1, Returns (fl1, cnt)) \<longrightarrow>
            step rn rs (fs, PromptActive StripPattern s buffer cursor_pos) key
              = (fs1, Running (s\<lparr>files := fl1,
                   message := ''Renamed '' @ str_nat cnt @ '' files''\<rparr>)))
       \<and> (step rn rs (fs, Running s) k = (fs2, Exiting fl pat) \<longleftrightarrow>
            (k = ord CHR ''q'' \<or> k = ord CHR ''Q'') \<and> fs2 = fs \<and> fl = files s \<and> pat = None)
       \<and> (k = ord CHR ''S'' \<longrightarrow>
            step rn rs (fs, Running s) k
              = (fs, PromptActive StripPattern (s\<lparr>message := []\<rparr>) ''^'' 1))
       \<and> ((k = ord CHR ''x'' \<or> k = ord CHR ''X'') \<and> files s \<noteq> [] \<longrightarrow>
            (\<exists>pattern. step rn rs (fs, Running s) k
              = (fs, PromptActive BulkEnumerate (s\<lparr>message := []\<rparr>) pattern
                   (int (length pattern)))))
       \<and> (k = ord CHR ''r'' \<and> 0 \<le> current_idx s \<and> current_idx s < int (length (files s)) \<longrightarrow>
            step rn rs (fs, Running s) k
              = (fs, PromptActive (SingleRename (files s ! nat (current_idx s)))
                   (s\<lparr>message := []\<rparr>) (files s ! nat (current_idx s))
                   (int (length (files s ! nat (current_idx s))))))"
proof -
  have single: "\<exists>fs' s'. step rn rs (fs, PromptActive (SingleRename old_name) s buffer cursor_pos) key
            = (fs', Running s')"
    using res by (rule single_rename_resolves)
  have bulk: "step rn rs (fs, PromptActive BulkEnumerate s buffer cursor_pos) key
            = (fs, Exiting (files s) answer)"
    using res by (simp add: step_def after_prompt_def)
  have strip: "step rn rs (fs, PromptActive StripPattern s buffer cursor_pos) key
              = (fs1, Running (s\<lparr>files := fl1,
                   message := ''Renamed '' @ str_nat cnt @ '' files''\<rparr>))"
    if "strip_files rn rs answer fs (files s) = (fs1, Returns (fl1, cnt))"
    using res that by (simp add: step_def after_prompt_def)
  have quit: "step rn rs (fs, Running s) k = (fs2, Exiting fl pat) \<longleftrightarrow>
            (k = ord CHR ''q'' \<or> k = ord CHR ''Q'') \<and> fs2 = fs \<and> fl = files s \<and> pat = None"
    using main_key_exits [of s k fl pat] by (auto simp: step_def)
  have tS: "step rn rs (fs, Running s) k
              = (fs, PromptActive StripPattern (s\<lparr>message := []\<rparr>) ''^'' 1)"
    if "k = ord CHR ''S''"
    using that by (simp add: step_def main_key_def Let_def)
  have tx: "\<exists>pattern. step rn rs (fs, Running s) k
              = (fs, PromptActive BulkEnumerate (s\<lparr>message := []\<rparr>) pattern
                   (int (length pattern)))"
    if "(k = ord CHR ''x'' \<or> k = ord CHR ''X'') \<and> files s \<noteq> []"
    using that by (auto simp: step_def main_key_def bulk_pattern_def Let_def)
  have tr: "step rn rs (fs, Running s) k
              = (fs, PromptActive (SingleRename (files s ! nat (current_idx s)))
                   (s\<lparr>message := []\<rparr>) (files s ! nat (current_idx s))
                   (int (length (files s ! nat (current_idx s)))))"
    if "k = ord CHR ''r'' \<and> 0 \<le> current_idx s \<and> current_idx s < int (length (files s))"
    using that by (simp add: step_def main_key_def py_getitem_in Let_def)
  show ?thesis
    using single bulk strip quit tS tx tr by (intro conjI impI)
qed


theorem session_transitions_witness:
  "prompt_key ''a'' 1 10 = Resolved (Some ''a'')
   \<and> strip_files rename_log re_sub_literal (Some ''a'') [] (files (initial [''banana'']))
       = ([(''banana'', ''bnn'')], Returns ([''bnn''], 1))
   \<and> (\<exists>fs' s'. step rename_log re_sub_literal
          ([], PromptActive (SingleRename ''banana'') (initial [''banana'']) ''a'' 1) 10
            = (fs', Running s'))
   \<and> step rename_log re_sub_literal
        ([], PromptActive BulkEnumerate (initial [''banana'']) ''a'' 1) 10
        = ([], Exiting (files (initial [''banana''])) (Some ''a''))
   \<and> step rename_log re_sub_literal
        ([], PromptActive StripPattern (initial [''banana'']) ''a'' 1) 10
        = ([(''banana'', ''bnn'')], Running ((initial [''banana''])\<lparr>files := [''bnn''],
             message := ''Renamed '' @ str_nat 1 @ '' files''\<rparr>))
   \<and> step rename_log re_sub_literal ([], Running (initial [''banana''])) (ord CHR ''S'')
        = ([], PromptActive StripPattern ((initial [''banana''])\<lparr>message := []\<rparr>) ''^'' 1)"
proof -
  have res: "prompt_key ''a'' 1 10 = Resolved (Some ''a'')"
    by code_simp
  have sf: "strip_files rename_log re_sub_literal (Some ''a'') [] (files (initial [''banana'']))
       = ([(''banana'', ''bnn'')], Returns ([''bnn''], 1))"
    by code_simp
  note t = session_transitions [OF res, where rn = rename_log and rs = re_sub_literal
      and fs = "[]" and s = "initial [''banana'']" and old_name = "''banana''"
      and ?fs1.0 = "[(''banana'', ''bnn'')]" and ?fl1.0 = "[''bnn'']" and cnt = 1
      and k = "ord CHR ''S''"]
  note c2 = t [THEN conjunct2]
  note c3 = c2 [THEN conjunct2]
  note c5 = c3 [THEN conjunct2, THEN conjunct2]
  have k: "ord CHR ''S'' = ord CHR ''S''"
    by (rule refl)
  show ?thesis
    using res sf t [THEN conjunct1] c2 [THEN conjunct1] c3 [THEN conjunct1, THEN mp, OF sf]
      c5 [THEN conjunct1, THEN mp, OF k]
    by (intro conjI)
qed

text \<open>
  C10, as stated, fails for the bulk-enumerate trigger: after \<open>x\<close>, both Esc (cancelled)
  and Enter (confirmed) end the session instead of returning it to \<open>Running\<close>.
\<close>

theorem bulk_prompt_exits:
  "run rename_log re_sub_literal ([], Running (initial [''a'', ''b''])) [ord CHR ''x'', 27] =
     ([], Exiting [''a'', ''b''] None)
   \<and> run rename_log re_sub_literal ([], Running (initial [''a'', ''b''])) [ord CHR ''x'', 10] =
     ([], Exiting [''a'', ''b''] (Some ''%01d''))"
  by code_simp


section \<open>The strip rename\<close>

lemma str_nat_0: "str_nat 0 = ''0''"
  by (simp add: str_nat.simps digit_char_def)

lemma strip_files_renames:
  assumes "\<forall>v \<in> set fl. rs p v = Returns (g v)"
  shows "strip_files rn rs (Some p) fs fl =
     (case rename_all rn fs (map (\<lambda>v. (v, g v)) (filter (\<lambda>v. g v \<noteq> v) fl)) of
        (fs', None) \<Rightarrow> (fs', Returns (map g fl, length (filter (\<lambda>v. g v \<noteq> v) fl)))
      | (fs', Some reason) \<Rightarrow> (fs', Raises (OSError reason)))"
  using assms
proof (induction fl arbitrary: fs)
  case Nil
  then show ?case by simp
next
  case (Cons v vs)
  have sub: "re_sub rs (Some p) v = Returns (g v)"
    using Cons.prems by (simp add: re_sub_def)
  have rest: "\<forall>v \<in> set vs. rs p v = Returns (g v)"
    using Cons.prems by simp
  show ?case
  proof (cases "g v = v")
    case True
    then show ?thesis
      using sub Cons.IH [OF rest, of fs]
      by (simp split: prod.splits option.splits)
  next
    case False
    show ?thesis
    proof (cases "rn fs v (g v)")
      case (Inl reason)
      with False sub show ?thesis by simp
    next
      case (Inr fs1)
      with False sub Cons.IH [OF rest, of fs1] show ?thesis
        by (simp split: prod.splits option.splits)
    qed
  qed
qed

lemma re_sub_literal_literal:
  "p \<noteq> [] \<Longrightarrow> \<not> list_ex re_special p \<Longrightarrow> re_sub_literal p v = Returns (remove_all p v)"
  by (auto simp: re_sub_literal_def re_special_def)

lemma rename_all_log: "rename_all rename_log lg ps = (lg @ ps, None)"
  by (induction ps arbitrary: lg) (auto simp: rename_log_def)

lemma remove_all_single: "remove_all [c] v = filter (\<lambda>x. x \<noteq> c) v"
  by (induction v) (auto simp: remove_all.simps(2))

lemma default_strip_prompt:
  "step rn rs (fs, Running s) (ord CHR ''S'') =
     (fs, PromptActive StripPattern (s\<lparr>message := []\<rparr>) ''^'' 1)"
  by (simp add: step_def main_key_def Let_def)

lemma confirm_default_strip: "prompt_key ''^'' 1 10 = Resolved (Some ''^'')"
  by code_simp

lemma strip_step:
  assumes conf: "prompt_key buffer cursor_pos key = Resolved (Some p)"
    and comp: "\<forall>v \<in> set (files s). rs p v = Returns (g v)"
    and ok: "rename_all rn fs (map (\<lambda>v. (v, g v)) (filter (\<lambda>v. g v \<noteq> v) (files s)))
               = (fs', None)"
  shows "step rn rs (fs, PromptActive StripPattern s buffer cursor_pos) key =
           (fs', Running (s\<lparr>files := map g (files s),
              message := ''Renamed '' @ str_nat (length (filter (\<lambda>v. g v \<noteq> v) (files s)))
                           @ '' files''\<rparr>))"
proof -
  have "strip_files rn rs (Some p) fs (files s) =
      (fs', Returns (map g (files s), length (filter (\<lambda>v. g v \<noteq> v) (files s))))"
    using strip_files_renames [where rs = rs and p = p and g = g and fl = "files s"
        and rn = rn and fs = fs, OF comp] ok
    by simp
  then show ?thesis
    using conf by (simp add: step_def after_prompt_def)
qed

text \<open>
  C5, as the code has it. The strip prompt is confirmed with the pattern \<open>p\<close>; the
  pattern compiles, \<open>re.sub(p, '', v)\<close> giving \<open>g v\<close> on every item \<open>v\<close>; and every rename
  succeeds, the renames being those of the items whose name changes, to their new names,
  in list order. Then each item becomes \<open>g v\<close>, the file system is the one these renames
  reach, and the message reports the number of items whose name changed; items whose name
  does not change are not renamed. For a pattern without special characters \<open>g v\<close> is
  \<open>remove_all p v\<close>: the name with every non-overlapping occurrence of the pattern
  removed, not the first only. The default pattern \<open>^\<close>, confirmed as it stands (the keys
  \<open>S\<close>, Enter), renames nothing and reports 0, on every file system.
\<close>

theorem strip_rename_removes_all_matches:
  assumes conf: "prompt_key buffer cursor_pos key = Resolved (Some p)"
    and comp: "\<forall>v \<in> set (files s). rs p v = Returns (g v)"
    and ok: "rename_all rn fs (map (\<lambda>v. (v, g v)) (filter (\<lambda>v. g v \<noteq> v) (files s)))
               = (fs', None)"
  shows "step rn rs (fs, PromptActive StripPattern s buffer cursor_pos) key =
           (fs', Running (s\<lparr>files := map g (files s),
              message := ''Renamed '' @ str_nat (length (filter (\<lambda>v. g v \<noteq> v) (files s)))
                           @ '' files''\<rparr>))
       \<and> (p \<noteq> [] \<and> \<not> list_ex re_special p
            \<and> rename_all rn fs (map (\<lambda>v. (v, remove_all p v))
                  (filter (\<lambda>v. remove_all p v \<noteq> v) (files s))) = (fs2, None) \<longrightarrow>
            step rn re_sub_literal (fs, PromptActive StripPattern s buffer cursor_pos) key =
              (fs2, Running (s\<lparr>files := map (remove_all p) (files s),
                 message := ''Renamed ''
                   @ str_nat (length (filter (\<lambda>v. remove_all p v \<noteq> v) (files s)))
                   @ '' files''\<rparr>)))
       \<and> run rn re_sub_literal (fs, Running s) [ord CHR ''S'', 10] =
            (fs, Running (s\<lparr>message := ''Renamed 0 files''\<rparr>))"
proof (intro conjI impI)
  show "step rn rs (fs, PromptActive StripPattern s buffer cursor_pos) key =
           (fs', Running (s\<lparr>files := map g (files s),
              message := ''Renamed '' @ str_nat (length (filter (\<lambda>v. g v \<noteq> v) (files s)))
                           @ '' files''\<rparr>))"
    using conf comp ok by (rule strip_step)
next
  assume a: "p \<noteq> [] \<and> \<not> list_ex re_special p
            \<and> rename_all rn fs (map (\<lambda>v. (v, remove_all p v))
                  (filter (\<lambda>v. remove_all p v \<noteq> v) (files s))) = (fs2, None)"
  have lit: "\<forall>v \<in> set (files s). re_sub_literal p v = Returns (remove_all p v)"
    using a re_sub_literal_literal [of p] by blast
  have r: "rename_all rn fs (map (\<lambda>v. (v, remove_all p v))
                  (filter (\<lambda>v. remove_all p v \<noteq> v) (files s))) = (fs2, None)"
    using a by (elim conjE)
  show "step rn re_sub_literal (fs, PromptActive StripPattern s buffer cursor_pos) key =
              (fs2, Running (s\<lparr>files := map (remove_all p) (files s),
                 message := ''Renamed ''
                   @ str_nat (length (filter (\<lambda>v. remove_all p v \<noteq> v) (files s)))
                   @ '' files''\<rparr>))"
    using conf lit r by (rule strip_step)
next
  have caret: "\<forall>v \<in> set (files (s\<lparr>message := []\<rparr>)). re_sub_literal ''^'' v = Returns ((\<lambda>v. v) v)"
    by (simp add: re_sub_literal_def)
  have none: "rename_all rn fs (map (\<lambda>v. (v, (\<lambda>v. v) v))
      (filter (\<lambda>v. (\<lambda>v. v) v \<noteq> v) (files (s\<lparr>message := []\<rparr>)))) = (fs, None)"
    by simp
  have "step rn re_sub_literal (fs, PromptActive StripPattern (s\<lparr>message := []\<rparr>) ''^'' 1) 10 =
      (fs, Running (s\<lparr>message := ''Renamed 0 files''\<rparr>))"
    using strip_step [where g = "\<lambda>v. v" and rs = re_sub_literal and p = "''^''"
        and s = "s\<lparr>message := []\<rparr>" and rn = rn and fs = fs and fs' = fs,
        OF confirm_default_strip caret none]
    by (simp add: str_nat_0)
  then show "run rn re_sub_literal (fs, Running s) [ord CHR ''S'', 10] =
            (fs, Running (s\<lparr>message := ''Renamed 0 files''\<rparr>))"
    using default_strip_prompt [of rn re_sub_literal fs s] by (simp add: run_def)
qed


theorem strip_rename_removes_all_matches_witness:
  "prompt_key ''a'' 1 10 = Resolved (Some ''a'')
   \<and> ''a'' \<noteq> [] \<and> \<not> list_ex re_special ''a''
   \<and> rename_all rename_log [] (map (\<lambda>v. (v, remove_all ''a'' v))
         (filter (\<lambda>v. remove_all ''a'' v \<noteq> v) (files (initial [''banana'', ''xyz'']))))
       = ([(''banana'', ''bnn'')], None)
   \<and> step rename_log re_sub_literal
        ([], PromptActive StripPattern (initial [''banana'', ''xyz'']) ''a'' 1) 10 =
       ([(''banana'', ''bnn'')],
        Running \<lparr>files = [''bnn'', ''xyz''], current_idx = 0, first_selection = None,
                  message = ''Renamed 1 files''\<rparr>)
   \<and> run rename_log re_sub_literal ([], Running (initial [''banana'', ''xyz'']))
        [ord CHR ''S'', 10] =
       ([], Running \<lparr>files = [''banana'', ''xyz''], current_idx = 0, first_selection = None,
                      message = ''Renamed 0 files''\<rparr>)"
proof -
  have conf: "prompt_key ''a'' 1 10 = Resolved (Some ''a'')"
    by code_simp
  have lit: "''a'' \<noteq> []" "\<not> list_ex re_special ''a''"
    by (simp_all add: re_special_def)
  have comp: "\<forall>v \<in> set (files (initial [''banana'', ''xyz''])).
      re_sub_literal ''a'' v = Returns (remove_all ''a'' v)"
    by (simp add: re_sub_literal_def re_special_def)
  have ok: "rename_all rename_log [] (map (\<lambda>v. (v, remove_all ''a'' v))
         (filter (\<lambda>v. remove_all ''a'' v \<noteq> v) (files (initial [''banana'', ''xyz'']))))
       = ([(''banana'', ''bnn'')], None)"
    by code_simp
  have e: "remove_all ''a'' ''banana'' = ''bnn''" "remove_all ''a'' ''xyz'' = ''xyz''"
    "str_nat (Suc 0) = ''1''"
    by code_simp+
  note t = strip_rename_removes_all_matches [where rs = re_sub_literal and p = "''a''"
      and g = "remove_all ''a''" and s = "initial [''banana'', ''xyz'']"
      and rn = rename_log and fs = "[]" and fs' = "[(''banana'', ''bnn'')]"
      and ?fs2.0 = "[(''banana'', ''bnn'')]", OF conf comp ok]
  have p1: "step rename_log re_sub_literal
        ([], PromptActive StripPattern (initial [''banana'', ''xyz'']) ''a'' 1) 10 =
       ([(''banana'', ''bnn'')],
        Running \<lparr>files = [''bnn'', ''xyz''], current_idx = 0, first_selection = None,
                  message = ''Renamed 1 files''\<rparr>)"
    using t [THEN conjunct2, THEN conjunct1, THEN mp, OF conjI [OF lit(1) conjI [OF lit(2) ok]]]
    by (simp add: initial_def e)
  have p2: "run rename_log re_sub_literal ([], Running (initial [''banana'', ''xyz'']))
        [ord CHR ''S'', 10] =
       ([], Running \<lparr>files = [''banana'', ''xyz''], current_idx = 0, first_selection = None,
                      message = ''Renamed 0 files''\<rparr>)"
    using t [THEN conjunct2, THEN conjunct2] by (simp add: initial_def)
  show ?thesis
    using conf lit ok p1 p2 by (intro conjI)
qed


text \<open>
  C5, as stated, fails on a name with two matches: with the pattern \<open>a\<close> the item
  \<open>banana\<close> is renamed to \<open>bnn\<close>; removing only the first match would give \<open>bnana\<close>.
\<close>

theorem strip_removes_every_match:
  "run rename_log re_sub_literal ([], Running (initial [''banana'']))
     [ord CHR ''S'', KEY_BACKSPACE, ord CHR ''a'', 10] =
     ([(''banana'', ''bnn'')],
      Running \<lparr>files = [''bnn''], current_idx = 0, first_selection = None,
                message = ''Renamed 1 files''\<rparr>)
   \<and> spec_remove_first ''a'' ''banana'' = ''bnana''"
  by code_simp



section \<open>Further facts about the model\<close>

subsection \<open>The width of the default pattern\<close>

text \<open>
  \<open>ceil_log10\<close> is the ceiling of the real logarithm to base 10: the value
  \<open>math.ceil(math.log(n, 10))\<close> has when the logarithm is exact.
\<close>

lemma ceil_log10_bounds:
  "1 \<le> n \<Longrightarrow> n \<le> 10 ^ ceil_log10 n \<and> (ceil_log10 n = 0 \<or> 10 ^ (ceil_log10 n - 1) < n)"
proof (induction n rule: ceil_log10.induct)
  case (1 n)
  show ?case
  proof (cases "n \<le> 1")
    case True
    with 1 show ?thesis by (simp add: ceil_log10.simps)
  next
    case False
    define m where "m = (n + 9) div 10"
    define w where "w = ceil_log10 m"
    have m1: "1 \<le> m" using False by (simp add: m_def)
    have up: "n \<le> 10 * m" by (simp add: m_def)
    have dn: "10 * m \<le> n + 9" by (simp add: m_def)
    have ih: "m \<le> 10 ^ w \<and> (w = 0 \<or> 10 ^ (w - 1) < m)"
      using "1.IH" [OF False] m1 by (simp add: m_def w_def)
    have c: "ceil_log10 n = Suc w"
      using False by (simp add: ceil_log10.simps [of n] m_def w_def)
    have a: "n \<le> 10 ^ Suc w"
      using up ih by simp
    have b: "10 ^ w < n"
    proof (cases "w = 0")
      case True
      with False show ?thesis by simp
    next
      case w: False
      with ih have "10 ^ (w - 1) < m" by simp
      then have "10 * 10 ^ (w - 1) + 10 \<le> 10 * m" by simp
      moreover have "(10::nat) * 10 ^ (w - 1) = 10 ^ w"
        using w by (cases w) simp_all
      ultimately show ?thesis using dn by simp
    qed
    show ?thesis using a b c by simp
  qed
qed

lemma ceil_log10_is_ceiling_log:
  assumes "1 \<le> n"
  shows "int (ceil_log10 n) = \<lceil>log 10 (real n)\<rceil>"
proof -
  define w where "w = ceil_log10 n"
  have b: "n \<le> 10 ^ w" "w = 0 \<or> 10 ^ (w - 1) < n"
    using ceil_log10_bounds [OF assms] by (simp_all add: w_def)
  have "real n \<le> real (10 ^ w)"
    using b(1) by (simp only: of_nat_le_iff)
  then have r1: "real n \<le> 10 ^ w"
    by simp
  have le: "log 10 (real n) \<le> real w"
    using r1 assms by (intro log_of_power_le) simp_all
  have gt: "real w - 1 < log 10 (real n)"
  proof (cases "w = 0")
    case True
    have "0 \<le> log 10 (real n)" using assms by simp
    with True show ?thesis by simp
  next
    case False
    with b(2) have "(10::nat) ^ (w - 1) < n" by simp
    then have "real (10 ^ (w - 1)) < real n"
      by (simp only: of_nat_less_iff)
    then have "(10::real) ^ (w - 1) < real n"
      by simp
    then have "real (w - 1) < log 10 (real n)"
      by (intro less_log_of_power) simp_all
    with False show ?thesis by (simp add: of_nat_diff)
  qed
  have "\<lceil>log 10 (real n)\<rceil> = int w"
    using le gt by (intro ceiling_unique) simp_all
  then show ?thesis by (simp add: w_def)
qed



subsection \<open>The final enumerate rename on a file system that records the calls\<close>

text \<open>
  With a pattern that formats every index, each file is renamed once, in list order, to
  its formatted 1-based index, a space and its old name.
\<close>

lemma enumerate_rename_log:
  assumes "\<forall>k. py_format pattern False (int k + 1) = Returns (g k)"
  shows "enumerate_rename rename_log pattern fs i fl =
           (fs @ map (\<lambda>(k, f). (f, g k @ '' '' @ f)) (zip [i..<i + length fl] fl), Returns ())"
proof (induction fl arbitrary: fs i)
  case Nil
  show ?case by simp
next
  case (Cons f rest)
  have "i < i + length (f # rest)"
    by simp
  then have "[i..<i + length (f # rest)] = i # [Suc i..<i + length (f # rest)]"
    by (rule upt_conv_Cons)
  moreover have "i + length (f # rest) = Suc i + length rest"
    by simp
  ultimately have u: "[i..<i + length (f # rest)] = i # [Suc i..<Suc i + length rest]"
    by (simp only:)
  have p: "py_format pattern False (int i + 1) = Returns (g i)"
    using assms by blast
  show ?case
    unfolding u using p Cons.IH [of "fs @ [(f, g i @ '' '' @ f)]" "Suc i"]
    by (simp add: rename_log_def)
qed

subsection \<open>\<open>prompt_user\<close> inside the session\<close>

text \<open>
  When \<open>prompt_user\<close> returns on a supply of keys, the session that is in the prompt
  consumes the same keys and goes on with what \<open>main\<close> does with the returned value.
\<close>

lemma prompt_loop_in_session:
  assumes "prompt_loop b c keys = Some (Inr r, rest)"
  shows "\<exists>used. keys = used @ rest
           \<and> run rn rs (fs, PromptActive kind s b c) used = after_prompt rn rs fs kind s r"
  using assms
proof (induction keys arbitrary: b c)
  case Nil
  then show ?case by simp
next
  case (Cons key keys)
  show ?case
  proof (cases "prompt_key b c key")
    case (Editing b' c')
    with Cons.prems have "prompt_loop b' c' keys = Some (Inr r, rest)"
      by simp
    from Cons.IH [OF this] obtain used where u: "keys = used @ rest"
      "run rn rs (fs, PromptActive kind s b' c') used = after_prompt rn rs fs kind s r"
      by blast
    have "run rn rs (fs, PromptActive kind s b c) (key # used) = after_prompt rn rs fs kind s r"
      using u(2) Editing by (simp add: run_def step_def)
    with u(1) show ?thesis
      by (intro exI [of _ "key # used"]) simp
  next
    case (Resolved r')
    with Cons.prems have "r' = r" "rest = keys"
      by simp_all
    with Resolved have "run rn rs (fs, PromptActive kind s b c) [key] = after_prompt rn rs fs kind s r"
      by (simp add: run_def step_def)
    with \<open>rest = keys\<close> show ?thesis
      by (intro exI [of _ "[key]"]) simp
  next
    case (Faulted e)
    with Cons.prems show ?thesis by simp
  qed
qed


subsection \<open>Delete-forward, key by key\<close>

text \<open>
  Ctrl-D with the cursor offset in \<open>[0, length]\<close>: it removes the character at the
  offset, leaves the empty buffer as it is, and raises at the end of a non-empty buffer.
\<close>

lemma delete_forward:
  assumes "0 \<le> c" "c \<le> int (length b)"
  shows "prompt_key b c 4 =
     (if c < int (length b) then Editing (take (nat c) b @ drop (Suc (nat c)) b) c
      else if b = [] then Editing b c
      else Faulted IndexError)"
  using assms by (auto simp: prompt_key_def py_pop_def norm_index_def Let_def)


subsection \<open>A failing rename in the two interactive operations\<close>

text \<open>
  The single rename keeps the state and reports the reason; the strip loop raises at the
  first item whose rename fails; a cancelled strip prompt raises on a non-empty list.
\<close>

lemma single_rename_failure_recovered:
  assumes "prompt_key b c key = Resolved (Some new_name)" "new_name \<noteq> old_name"
    and "rn fs old_name new_name = Inl reason"
  shows "step rn rs (fs, PromptActive (SingleRename old_name) s b c) key =
           (fs, Running (s\<lparr>message := ''Error: '' @ reason\<rparr>))"
  using assms by (simp add: step_def after_prompt_def)

lemma strip_rename_failure_raises:
  assumes "rs p v = Returns v'" "v' \<noteq> v" "rn fs v v' = Inl reason"
  shows "strip_files rn rs (Some p) fs (v # vs) = (fs, Raises (OSError reason))"
  using assms by (simp add: re_sub_def)

lemma strip_cancelled_raises:
  "step rn rs (fs, PromptActive StripPattern s b c) 27 =
     (fs, if files s = [] then Running (s\<lparr>files := [], message := ''Renamed 0 files''\<rparr>)
          else Crashed TypeError)"
  by (cases "files s") (simp_all add: step_def after_prompt_def prompt_key_def re_sub_def str_nat_0)

text \<open>
  The renames done before the failing one stay done: of \<open>a1\<close> and \<open>b1\<close> only \<open>a1\<close>
  exists; stripping \<open>1\<close> renames \<open>a1\<close> to \<open>a\<close> and then raises on \<open>b1\<close>.
\<close>

lemma strip_keeps_earlier_renames:
  "run rename_paths re_sub_literal ({''a1''}, Running (initial [''a1'', ''b1'']))
     [ord CHR ''S'', KEY_BACKSPACE, ord CHR ''1'', 10] =
     ({''a''}, Crashed (OSError ''No such file or directory''))"
  by code_simp


subsection \<open>Inputs outside the modelled fragments\<close>

text \<open>
  A format with the flag \<open>-\<close> and a strip pattern with a special character are outside
  the fragments of \<open>%\<close> and of \<open>re.sub\<close> written out above: the model reports that, and
  asserts neither a normal end nor an exception.
\<close>

lemma format_outside_fragment:
  "program rename_log re_sub_literal [] [''a'']
     (map ord ''x'' @ [KEY_BACKSPACE, KEY_BACKSPACE, KEY_BACKSPACE] @ map ord ''-3d'' @ [10])
     = OutsideModelExit []"
  by code_simp

lemma pattern_outside_fragment:
  "run rename_log re_sub_literal ([], Running (initial [''abc'']))
     [ord CHR ''S'', ord CHR ''a'', 10] = ([], OutsideModel)"
  by code_simp

subsection \<open>The anchor away from the cursor\<close>

text \<open>
  A swap move that does not wrap keeps the anchor on its item when the anchor is not at
  the cursor index the move starts from.
\<close>

lemma anchor_follows_item:
  assumes ne: "files s \<noteq> []"
    and c: "0 \<le> current_idx s" "current_idx s < int (length (files s))"
    and a: "first_selection s = Some a" "0 \<le> a" "a < int (length (files s))"
    and other: "a \<noteq> current_idx s"
    and key: "key = ord CHR ''K'' \<and> 0 < current_idx s
              \<or> key = ord CHR ''J'' \<and> current_idx s < int (length (files s)) - 1"
  shows "\<exists>s' a'. step rn rs (fs, Running s) key = (fs, Running s')
           \<and> first_selection s' = Some a' \<and> 0 \<le> a' \<and> a' < int (length (files s'))
           \<and> files s' ! nat a' = files s ! nat a"
proof -
  define new where "new = (current_idx s + (if key = ord CHR ''K'' then - 1 else 1))
                      mod int (length (files s))"
  have k: "key = ord CHR ''K'' \<or> key = ord CHR ''J''"
    using key by blast
  have nw: "new = current_idx s + (if key = ord CHR ''K'' then - 1 else 1)"
    using key c by (auto simp: new_def)
  note st = swap_move_step [OF ne c k new_def, of rn rs fs]
  show ?thesis
  proof (cases "a = new")
    case True
    have "files s ! nat (current_idx s) = files s ! nat (current_idx s)" by simp
    show ?thesis
      using st True nw a c key
      by (auto simp: nth_list_update min_def max_def)
  next
    case False
    show ?thesis
      using st False other a c nw
      by (auto simp: nth_list_update)
  qed
qed

end
